theory Spec2Isabelle
  imports Complex_Main "HOL-Library.Multiset" "HOL-Library.Product_Lexorder"
begin

section \<open>Python values used by analyzer.py\<close>

text \<open>
  A Python \<open>str\<close> is a sequence of Unicode code points; a code point is a natural number.
  Literals of the source are written in ASCII and embedded with \<open>py\<close>.
\<close>

type_synonym str = "nat list"

definition py :: "string \<Rightarrow> str" where
  "py s = map of_char s"

text \<open>
  The part of the Unicode character database the program consults through \<open>str.lower\<close>,
  the regular expression class \<open>\w\<close> and \<open>str.strip\<close>. It is a parameter of the model.
  \<open>lower_at s i\<close> is the lower-case mapping of the character at position \<open>i\<close> of \<open>s\<close>
  (one to three code points; it looks at the neighbours only for the capital sigma).
\<close>

record unicode =
  lower_at :: "str \<Rightarrow> nat \<Rightarrow> str"
  isalnum :: "nat \<Rightarrow> bool"
  isspace :: "nat \<Rightarrow> bool"

text \<open>
  Exceptions as values. Every error class of Python derives from \<open>Exception\<close>;
  \<open>KeyboardInterrupt\<close>, \<open>SystemExit\<close> and \<open>GeneratorExit\<close> derive from
  \<open>BaseException\<close> only and are not caught by \<open>except Exception\<close>.
\<close>

datatype exc = Exception string | BaseOnly string

text \<open>
  A Python number is an \<open>int\<close> or a \<open>float\<close>. A finite float is a rational number;
  \<open>binary64\<close> rounds a rational to the nearest double (ties to even, exponent range
  not bounded).
\<close>

datatype pynum = PyInt int | PyFloat rat

fun num_val :: "pynum \<Rightarrow> rat" where
  "num_val (PyInt i) = of_int i"
| "num_val (PyFloat x) = x"

definition round_half_even :: "rat \<Rightarrow> int" where
  "round_half_even x =
     (let f = \<lfloor>x\<rfloor>; r = x - of_int f
      in if r < 1 / 2 then f else if 1 / 2 < r then f + 1
         else if even f then f else f + 1)"

fun bit_length :: "nat \<Rightarrow> nat" where
  "bit_length n = (if n = 0 then 0 else Suc (bit_length (n div 2)))"

declare bit_length.simps [simp del]

definition binary64 :: "rat \<Rightarrow> rat" where
  "binary64 x =
     (if x = 0 then 0
      else let (a, b) = quotient_of \<bar>x\<bar>;
               d = int (bit_length (nat a)) - int (bit_length (nat b));
               e = (if power_int 2 d \<le> \<bar>x\<bar> then d else d - 1);
               ulp = power_int 2 (e - 52)
           in sgn x * of_int (round_half_even (\<bar>x\<bar> / ulp)) * ulp)"

text \<open>\<open>a / b\<close> on two ints: ZeroDivisionError on a zero divisor, else the correctly rounded float.\<close>

definition truediv :: "int \<Rightarrow> int \<Rightarrow> exc + pynum" where
  "truediv a b =
     (if b = 0 then Inl (Exception ''ZeroDivisionError'')
      else Inr (PyFloat (binary64 (of_int a / of_int b))))"

text \<open>
  \<open>round(x, 1)\<close>: an int is returned unchanged; a float is rounded to one decimal on its
  exact value (ties to even) and the decimal is converted back to the nearest double.
\<close>

fun py_round1 :: "pynum \<Rightarrow> pynum" where
  "py_round1 (PyInt i) = PyInt i"
| "py_round1 (PyFloat x) = PyFloat (binary64 (of_int (round_half_even (x * 10)) / 10))"

section \<open>The regular expressions and string methods\<close>

definition is_word :: "unicode \<Rightarrow> nat \<Rightarrow> bool" where
  \<comment> \<open>\<open>\w\<close>: alphanumeric or the underscore\<close>
  "is_word U c \<longleftrightarrow> isalnum U c \<or> c = 95"

definition is_terminal :: "nat \<Rightarrow> bool" where
  \<comment> \<open>the class \<open>[.!?]\<close>\<close>
  "is_terminal c \<longleftrightarrow> c = 46 \<or> c = 33 \<or> c = 63"

text \<open>\<open>re.findall\<close> of \<open>W+\<close>: the maximal runs of characters of the class, left to right.\<close>

function re_findall :: "(nat \<Rightarrow> bool) \<Rightarrow> str \<Rightarrow> str list" where
  "re_findall W [] = []"
| "re_findall W (c # cs) =
     (if W c then (c # takeWhile W cs) # re_findall W (dropWhile W cs)
      else re_findall W cs)"
  by pat_completeness auto
termination
  by (relation "measure (\<lambda>(W, s). length s)") (auto simp: le_imp_less_Suc length_dropWhile_le)

text \<open>
  \<open>re.split\<close> on \<open>T+\<close>: the pieces between the maximal runs of separators, the empty
  pieces at both ends included.
\<close>

function re_split :: "(nat \<Rightarrow> bool) \<Rightarrow> str \<Rightarrow> str list" where
  "re_split T s =
     (case dropWhile (\<lambda>c. \<not> T c) s of
        [] \<Rightarrow> [s]
      | c # rest \<Rightarrow> takeWhile (\<lambda>c. \<not> T c) s # re_split T (dropWhile T rest))"
  by pat_completeness auto
termination
proof (relation "measure (\<lambda>(T, s). length s)")
  show "wf (measure (\<lambda>(T, s). length s))" by simp
next
  fix T :: "nat \<Rightarrow> bool" and s :: str and c rest
  assume eq: "dropWhile (\<lambda>c. \<not> T c) s = c # rest"
  have "length (dropWhile T rest) \<le> length rest"
    by (rule length_dropWhile_le)
  also have "length rest < length (c # rest)" by simp
  also have "length (c # rest) \<le> length s"
    unfolding eq [symmetric] by (rule length_dropWhile_le)
  finally show "((T, dropWhile T rest), (T, s)) \<in> measure (\<lambda>(T, s). length s)"
    by simp
qed

declare re_split.simps [simp del]

definition lower :: "unicode \<Rightarrow> str \<Rightarrow> str" where
  "lower U s = concat (map (lower_at U s) [0..<length s])"

definition strip :: "unicode \<Rightarrow> str \<Rightarrow> str" where
  "strip U s = rev (dropWhile (isspace U) (rev (dropWhile (isspace U) s)))"

section \<open>Helper functions of analyzer.py\<close>

definition get_words :: "unicode \<Rightarrow> str \<Rightarrow> str list" where
  "get_words U text = re_findall (is_word U) (lower U text)"

definition word_count :: "unicode \<Rightarrow> str \<Rightarrow> int" where
  "word_count U text = int (length (get_words U text))"

definition sentence_split :: "unicode \<Rightarrow> str \<Rightarrow> str list" where
  "sentence_split U text =
     (let parts = re_split is_terminal text
      in map (strip U) (filter (\<lambda>p. strip U p \<noteq> []) parts))"

definition avg_sentence_length :: "unicode \<Rightarrow> str list \<Rightarrow> exc + pynum" where
  "avg_sentence_length U sentences =
     (if sentences = [] then Inr (PyInt 0)
      else let lengths = map (\<lambda>s. int (length (get_words U s))) sentences
           in truediv (sum_list lengths) (int (length lengths)))"

section \<open>The standard library behind \<open>Counter(words).most_common(top_n)\<close>\<close>

text \<open>
  A \<open>Counter\<close> is a dict, which keeps its keys in insertion order: an association list.
  Counting an element is \<open>mapping[elem] = mapping.get(elem, 0) + 1\<close>: a known key keeps
  its place, a new key goes to the end.
\<close>

fun count_element :: "'a \<Rightarrow> ('a \<times> int) list \<Rightarrow> ('a \<times> int) list" where
  "count_element w [] = [(w, 1)]"
| "count_element w ((v, c) # m) =
     (if v = w then (v, c + 1) # m else (v, c) # count_element w m)"

definition Counter :: "'a list \<Rightarrow> ('a \<times> int) list" where
  "Counter ws = foldl (\<lambda>m w. count_element w m) [] ws"

text \<open>
  \<open>sorted(xs, key=key, reverse=True)\<close>: CPython reverses the list, sorts it with its
  stable sort and reverses the result, so equal keys keep their original order.
\<close>

definition py_sorted_reverse :: "('a \<Rightarrow> 'k::linorder) \<Rightarrow> 'a list \<Rightarrow> 'a list" where
  "py_sorted_reverse key xs = rev (sort_key key (rev xs))"

text \<open>\<open>max(it, key=key)\<close> keeps the first of the maximal elements; None on no element.\<close>

fun py_max :: "('a \<Rightarrow> 'k::linorder) \<Rightarrow> 'a list \<Rightarrow> 'a option" where
  "py_max key [] = None"
| "py_max key (x # xs) = Some (fold (\<lambda>v best. if key best < key v then v else best) xs x)"

definition py_range_down :: "int \<Rightarrow> int list" where
  \<comment> \<open>\<open>range(0, -n, -1)\<close>: 0, -1, ..., -(n-1); empty when \<open>n \<le> 0\<close>\<close>
  "py_range_down n = map (\<lambda>i. - int i) [0..<nat n]"

text \<open>
  The heap of \<open>heapq.nlargest\<close> holds tuples \<open>(key(elem), order, elem)\<close>. The order
  numbers are pairwise different, so two tuples are always told apart by their first
  two components, \<open>prio\<close>. A heap is modelled by the list of its entries: its first
  element \<open>result[0]\<close> is the least entry, and \<open>heapreplace\<close> takes that entry out and
  puts the new one in.
\<close>

definition prio :: "'k \<times> int \<times> 'a \<Rightarrow> 'k \<times> int" where
  "prio en = (fst en, fst (snd en))"

fun heap_top :: "('k::linorder \<times> int \<times> 'a) list \<Rightarrow> 'k \<times> int \<times> 'a" where
  "heap_top (x # xs) = fold (\<lambda>v best. if prio v < prio best then v else best) xs x"

definition heapreplace ::
  "('k::linorder \<times> int \<times> 'a) list \<Rightarrow> 'k \<times> int \<times> 'a \<Rightarrow> ('k \<times> int \<times> 'a) list" where
  "heapreplace h item = item # remove1 (heap_top h) h"

text \<open>One round of the loop \<open>for elem in it\<close> of \<open>nlargest\<close>, on the heap and \<open>order\<close>.\<close>

definition nlargest_step ::
  "('a \<Rightarrow> 'k::linorder) \<Rightarrow> 'a \<Rightarrow> ('k \<times> int \<times> 'a) list \<times> int \<Rightarrow> ('k \<times> int \<times> 'a) list \<times> int" where
  "nlargest_step key elem st =
     (let (h, order) = st; k = key elem
      in if fst (heap_top h) < k then (heapreplace h (k, order, elem), order - 1)
         else (h, order))"

text \<open>
  \<open>heapq.nlargest(n, iterable, key)\<close> as CPython 3.11 writes it: the short cut through
  \<open>max\<close> for \<open>n = 1\<close>, the one through \<open>sorted\<close> when \<open>n\<close> is at least the size, and
  the heap otherwise.
\<close>

definition nlargest :: "int \<Rightarrow> ('a \<Rightarrow> 'k::linorder) \<Rightarrow> 'a list \<Rightarrow> 'a list" where
  "nlargest n key xs =
     (if n = 1 then (case py_max key xs of None \<Rightarrow> [] | Some r \<Rightarrow> [r])
      else if int (length xs) \<le> n then take (nat n) (py_sorted_reverse key xs)
      else let result = map (\<lambda>(i, elem). (key elem, i, elem)) (zip (py_range_down n) xs);
               rest = drop (length result) xs
           in if result = [] then []
              else map (\<lambda>en. snd (snd en))
                     (py_sorted_reverse prio (fst (fold (nlargest_step key) rest (result, - n)))))"

definition most_common :: "int \<Rightarrow> ('a \<times> int) list \<Rightarrow> ('a \<times> int) list" where
  "most_common n c = nlargest n snd c"

section \<open>Keyword frequency\<close>

definition default_stopwords :: "str set" where
  "default_stopwords = set (map py
     [''the'', ''and'', ''is'', ''in'', ''to'', ''a'', ''of'', ''that'', ''it'', ''on'',
      ''for'', ''with'', ''as'', ''this'', ''are'', ''an'', ''be'', ''by'', ''or'', ''we'',
      ''your'', ''you''])"

definition filtered_words :: "unicode \<Rightarrow> str \<Rightarrow> str set option \<Rightarrow> str list" where
  \<comment> \<open>the list \<open>words\<close> of \<open>keyword_frequency\<close>\<close>
  "filtered_words U text stopwords =
     (let sw = (case stopwords of None \<Rightarrow> default_stopwords | Some s \<Rightarrow> s)
      in filter (\<lambda>w. w \<notin> sw) (get_words U text))"

definition keyword_frequency :: "unicode \<Rightarrow> str \<Rightarrow> int \<Rightarrow> str set option \<Rightarrow> (str \<times> int) list" where
  "keyword_frequency U text top_n stopwords =
     most_common top_n (Counter (filtered_words U text stopwords))"

section \<open>Readability checks\<close>

record metrics =
  total_words :: int
  sentence_count :: int
  average_sentence_length :: pynum
  long_sentences_count :: int
  difficulty_estimate :: str

text \<open>The grade chosen inside \<open>readability_checks\<close> from the average sentence length.\<close>

definition difficulty :: "pynum \<Rightarrow> str" where
  "difficulty avg_sent_len =
     (if num_val avg_sent_len < 12 then py ''Easy (good for general audiences)''
      else if num_val avg_sent_len < 20 then py ''Moderate''
      else py ''Hard (consider shortening sentences)'')"

definition readability_checks :: "unicode \<Rightarrow> str \<Rightarrow> exc + metrics" where
  "readability_checks U text =
     (let sentences = sentence_split U text
      in case avg_sentence_length U sentences of
           Inl e \<Rightarrow> Inl e
         | Inr avg_sent_len \<Rightarrow>
             let total = word_count U text;
                 long_sentences = filter (\<lambda>s. 20 < int (length (get_words U s))) sentences
             in Inr \<lparr> total_words = total,
                      sentence_count = int (length sentences),
                      average_sentence_length = py_round1 avg_sent_len,
                      long_sentences_count = int (length long_sentences),
                      difficulty_estimate = difficulty avg_sent_len \<rparr>)"

section \<open>Prompt, suggestion provider and main script\<close>

definition build_prompt :: "str \<Rightarrow> str" where
  "build_prompt summary =
     py (''You are an SEO assistant. Given the content summary below, provide clear, '' @
         ''actionable suggestions to improve on-page SEO, keyword usage, headings, '' @
         ''meta description ideas, and readability. Keep the suggestions concise and '' @
         ''beginner-friendly.\<newline>\<newline>'' @
         ''Content summary:\<newline>'') @ summary @
     py (''\<newline>\<newline>'' @ ''Return suggestions as bullet points.'')"

text \<open>
  What the program reads from outside: the Unicode tables, the file system, whether
  \<open>import openai\<close> succeeded, the process environment and the behaviour of the remote
  endpoint behind \<open>openai.ChatCompletion.create\<close>. A request is the keyword arguments
  of that call; of a response the program reads \<open>choices[i].message.content\<close> only
  (\<open>None\<close> for a null content). A response of any other shape raises inside the same
  \<open>try\<close> and is an \<open>Inl\<close> outcome of the call.
\<close>

record request =
  model :: str
  messages :: "(str \<times> str) list"
  max_tokens :: int
  temperature :: rat

record response =
  choices :: "str option list"

record world =
  ucd :: unicode
  files :: "str \<Rightarrow> exc + str"
  openai_imported :: bool
  environ :: "str \<Rightarrow> str option"
  ChatCompletion_create :: "request \<Rightarrow> exc + response"

definition read_file :: "world \<Rightarrow> str \<Rightarrow> exc + str" where
  "read_file w path = files w path"

definition default_mock :: str where
  "default_mock =
     py (''- Use a clear H1 that includes your main keyword.\<newline>'' @
         ''- Add a short meta description (140-160 chars) containing the keyword.\<newline>'' @
         ''- Use the top 3 keywords naturally in the first 100 words.\<newline>'' @
         ''- Break long paragraphs into smaller ones (2-3 sentences each).\<newline>'' @
         ''- Add subheadings (H2/H3) to organize content and include related keywords.\<newline>'' @
         ''- Include internal links to related pages and at least one external reference.'')"

definition fallback :: str where
  "fallback =
     py (''- (Fallback) Use a clear H1 with the main keyword.\<newline>'' @
         ''- (Fallback) Add a meta description (140-160 chars).\<newline>'' @
         ''- (Fallback) Use keywords in the first 100 words.\<newline>'' @
         ''- (Fallback) Shorten long sentences and add subheadings.'')"

text \<open>
  The body of the \<open>try\<close> of \<open>call_llm\<close>: the request that is sent, and either the
  stripped content of the first choice or the exception raised on the way.
\<close>

definition chat_request :: "world \<Rightarrow> str \<Rightarrow> request" where
  "chat_request w prompt =
     \<lparr> model = (case environ w (py ''OPENAI_MODEL'') of
                   None \<Rightarrow> py ''gpt-3.5-turbo'' | Some m \<Rightarrow> m),
       messages = [(py ''system'', py ''You are a helpful SEO assistant.''),
                   (py ''user'', prompt)],
       max_tokens = 300,
       temperature = 7 / 10 \<rparr>"

definition try_remote :: "world \<Rightarrow> str \<Rightarrow> exc + str" where
  "try_remote w prompt =
     (case ChatCompletion_create w (chat_request w prompt) of
        Inl e \<Rightarrow> Inl e
      | Inr resp \<Rightarrow>
          (case choices resp of
             [] \<Rightarrow> Inl (Exception ''IndexError'')
           | None # _ \<Rightarrow> Inl (Exception ''AttributeError'')
           | Some content # _ \<Rightarrow> Inr (strip (ucd w) content)))"

text \<open>
  \<open>call_llm\<close> returns its value, or the exception that leaves it, together with the
  list of the requests it handed to the remote call: the empty list means that the
  provider library was not called and nothing went over the network.
\<close>

definition use_mock_branch :: "world \<Rightarrow> bool \<Rightarrow> bool" where
  \<comment> \<open>\<open>use_mock or not openai or not os.getenv('OPENAI_API_KEY')\<close>\<close>
  "use_mock_branch w use_mock \<longleftrightarrow>
     use_mock \<or> \<not> openai_imported w \<or>
     (case environ w (py ''OPENAI_API_KEY'') of None \<Rightarrow> True | Some v \<Rightarrow> v = [])"

definition call_llm :: "world \<Rightarrow> str \<Rightarrow> bool \<Rightarrow> (exc + str) \<times> request list" where
  "call_llm w prompt use_mock =
     (if use_mock_branch w use_mock then (Inr default_mock, [])
      else (case try_remote w prompt of
              Inl (Exception c) \<Rightarrow> Inr fallback
            | Inl (BaseOnly c) \<Rightarrow> Inl (BaseOnly c)
            | Inr s \<Rightarrow> Inr s,
            [chat_request w prompt]))"

text \<open>Formatting of values inside the f-strings.\<close>

fun str_nat :: "nat \<Rightarrow> str" where
  "str_nat n = (if n < 10 then [48 + n] else str_nat (n div 10) @ [48 + n mod 10])"

declare str_nat.simps [simp del]

definition str_int :: "int \<Rightarrow> str" where
  "str_int i = (if i < 0 then 45 # str_nat (nat (- i)) else str_nat (nat i))"

definition str_bool :: "bool \<Rightarrow> str" where
  "str_bool b = (if b then py ''True'' else py ''False'')"

text \<open>
  A float is printed by its shortest decimal that reads back as the same double. For
  the result of \<open>round(x, 1)\<close> below \<open>10^16\<close> this is the decimal with one digit after
  the point.
\<close>

fun str_num :: "pynum \<Rightarrow> str" where
  "str_num (PyInt i) = str_int i"
| "str_num (PyFloat x) =
     (let d = round_half_even (x * 10)
      in str_int (d div 10) @ py ''.'' @ str_nat (nat (d mod 10)))"

fun join :: "str \<Rightarrow> str list \<Rightarrow> str" where
  "join sep [] = []"
| "join sep [x] = x"
| "join sep (x # y # ys) = x @ sep @ join sep (y # ys)"

text \<open>
  One run of \<open>main\<close>: the exception that ended it, if any, the strings given to \<open>print\<close>
  in order, and the requests handed to the remote call.
\<close>

record run =
  raised :: "exc option"
  printed :: "str list"
  sent :: "request list"

definition report_lines :: "int \<Rightarrow> metrics \<Rightarrow> (str \<times> int) list \<Rightarrow> str list" where
  "report_lines wc readability keywords =
     [py ''\<newline>--- Basic SEO Metrics ---'',
      py ''Word count: '' @ str_int wc,
      py ''Sentence count: '' @ str_int (sentence_count readability),
      py ''Average sentence length (words): '' @ str_num (average_sentence_length readability),
      py ''Number of long sentences (>20 words): '' @ str_int (long_sentences_count readability),
      py ''Difficulty estimate: '' @ difficulty_estimate readability,
      py ''\<newline>Top keywords:''] @
     map (\<lambda>(i, (kw, freq)). str_nat i @ py ''. '' @ kw @ [32, 8212, 32] @ str_int freq)
       (zip [1..<Suc (length keywords)] keywords)"

definition summary_of :: "int \<Rightarrow> metrics \<Rightarrow> (str \<times> int) list \<Rightarrow> str" where
  "summary_of wc readability keywords =
     (let top_keywords_text = join (py '', '') (map fst (take 5 keywords))
      in py ''Word count: '' @ str_int wc @ py ''. '' @
         py ''Top keywords: '' @ top_keywords_text @ py ''. '' @
         py ''Average sentence length: '' @ str_num (average_sentence_length readability) @ py ''. '' @
         py ''Long sentences: '' @ str_int (long_sentences_count readability) @ py ''.'')"

definition main :: "world \<Rightarrow> str \<Rightarrow> bool \<Rightarrow> int \<Rightarrow> run" where
  "main w content_path use_mock top_n =
     (let reading = [py ''Reading content from: '' @ content_path]
      in case read_file w content_path of
           Inl e \<Rightarrow> \<lparr> raised = Some e, printed = reading, sent = [] \<rparr>
         | Inr text \<Rightarrow>
            (let wc = word_count (ucd w) text
             in case readability_checks (ucd w) text of
                  Inl e \<Rightarrow> \<lparr> raised = Some e, printed = reading, sent = [] \<rparr>
                | Inr readability \<Rightarrow>
                   (let keywords = keyword_frequency (ucd w) text top_n None;
                        shown = reading @ report_lines wc readability keywords;
                        prompt = build_prompt (summary_of wc readability keywords);
                        sending = py ''\<newline>Sending summary to LLM (mock mode = '' @
                                  str_bool use_mock @ py '')...''
                    in case call_llm w prompt use_mock of
                         (Inl e, net) \<Rightarrow>
                           \<lparr> raised = Some e, printed = shown @ [sending], sent = net \<rparr>
                       | (Inr suggestions, net) \<Rightarrow>
                           \<lparr> raised = None,
                             printed = shown @ [sending,
                               py ''\<newline>--- SEO Improvement Suggestions ---'', suggestions],
                             sent = net \<rparr>)))"

text \<open>
  The Unicode tables restricted to ASCII (exact on code points below 128), for running
  the program on concrete inputs.
\<close>

definition ascii :: unicode where
  "ascii =
     \<lparr> lower_at = (\<lambda>s i. let c = s ! i in [if 65 \<le> c \<and> c \<le> 90 then c + 32 else c]),
       isalnum = (\<lambda>c. (48 \<le> c \<and> c \<le> 57) \<or> (65 \<le> c \<and> c \<le> 90) \<or> (97 \<le> c \<and> c \<le> 122)),
       isspace = (\<lambda>c. (9 \<le> c \<and> c \<le> 13) \<or> (28 \<le> c \<and> c \<le> 32)) \<rparr>"

section \<open>Notions used to state and prove the properties\<close>

text \<open>The position of the first occurrence of a word in a list of words.\<close>

definition first_index :: "'a \<Rightarrow> 'a list \<Rightarrow> nat" where
  "first_index w ws = length (takeWhile (\<lambda>v. v \<noteq> w) ws)"

text \<open>The lines of a text, as \<open>str.split\<close> on the newline gives them.\<close>

fun text_lines :: "str \<Rightarrow> str \<Rightarrow> str list" where
  "text_lines cur [] = [rev cur]"
| "text_lines cur (c # cs) =
     (if c = 10 then rev cur # text_lines [] cs else text_lines (c # cur) cs)"

text \<open>
  A world for running the program: one empty file, the provider library imported, a
  credential in the environment and an endpoint that cannot be reached.
\<close>

definition demo_world :: world where
  "demo_world =
     \<lparr> ucd = ascii,
       files = (\<lambda>p. if p = py ''sample_content.txt'' then Inr []
                     else Inl (Exception ''FileNotFoundError'')),
       openai_imported = True,
       environ = (\<lambda>v. if v = py ''OPENAI_API_KEY'' then Some (py ''sk-test'') else None),
       ChatCompletion_create = (\<lambda>r. Inl (Exception ''APIConnectionError'')) \<rparr>"

text \<open>The same world with the example text of the specification in the file.\<close>

definition example_world :: world where
  "example_world =
     demo_world \<lparr> files :=
       (\<lambda>p. Inr (py ''SEO is great. SEO helps. SEO helps websites rank.'')) \<rparr>"

text \<open>
  Insertion into a list in descending order of keys, behind the elements that are not
  smaller: one step of a stable descending sort.
\<close>

definition ins_desc :: "('a \<Rightarrow> 'k::linorder) \<Rightarrow> 'a \<Rightarrow> 'a list \<Rightarrow> 'a list" where
  "ins_desc f e ys = takeWhile (\<lambda>y. f e \<le> f y) ys @ e # dropWhile (\<lambda>y. f e \<le> f y) ys"

text \<open>The first heap of \<open>nlargest\<close>, and what its loop keeps true of heap and \<open>order\<close>.\<close>

definition decorate :: "('a \<Rightarrow> 'k) \<Rightarrow> int \<Rightarrow> 'a list \<Rightarrow> ('k \<times> int \<times> 'a) list" where
  "decorate key n xs = map (\<lambda>(i, elem). (key elem, i, elem)) (zip (py_range_down n) xs)"

definition heap_inv ::
  "('a \<Rightarrow> 'k::linorder) \<Rightarrow> nat \<Rightarrow> 'a list \<Rightarrow> ('k \<times> int \<times> 'a) list \<times> int \<Rightarrow> bool" where
  "heap_inv key m p st \<longleftrightarrow>
     map (\<lambda>en. snd (snd en)) (py_sorted_reverse prio (fst st)) = take m (py_sorted_reverse key p)
     \<and> (\<forall>en\<in>set (fst st). fst en = key (snd (snd en)) \<and> snd st < fst (snd en))
     \<and> distinct (map prio (fst st))"

section \<open>The tokenizer and the sentence splitter\<close>

lemma re_split_no_separator:
  assumes "\<forall>c\<in>set s. \<not> T c"
  shows "re_split T s = [s]"
proof -
  have d: "dropWhile (\<lambda>c. \<not> T c) s = []"
    using assms by (simp add: dropWhile_eq_Nil_conv)
  show ?thesis
    by (subst re_split.simps) (simp only: d list.case)
qed

lemma get_words_empty: "get_words U [] = []"
  by (simp add: get_words_def lower_def)

lemma strip_empty: "strip U [] = []"
  by (simp add: strip_def)

lemma sentence_split_empty: "sentence_split U [] = []"
  by (simp add: sentence_split_def re_split_no_separator strip_empty)

text \<open>
  Claim C9. For every text, \<open>word_count\<close> of the text is the length of the token
  sequence \<open>get_words\<close> returns for it.
\<close>

theorem word_count_is_length_of_get_words:
  "word_count U text = int (length (get_words U text))"
  by (simp add: word_count_def)

theorem word_count_is_length_of_get_words_witness:
  "word_count ascii (py ''Hi there. You?'') = 3
   \<and> get_words ascii (py ''Hi there. You?'') = [py ''hi'', py ''there'', py ''you'']"
proof -
  have g: "get_words ascii (py ''Hi there. You?'') = [py ''hi'', py ''there'', py ''you'']"
    by code_simp
  from word_count_is_length_of_get_words [of ascii "py ''Hi there. You?''"] g
  show ?thesis by simp
qed

text \<open>
  Claim C8. A text with no occurrence of \<open>.\<close>, \<open>!\<close> or \<open>?\<close> is split into at most one
  sentence: the whole text with the surrounding whitespace stripped when that is not
  empty, and no sentence at all when it is.
\<close>

theorem sentence_split_without_terminal:
  assumes "set text \<inter> set (py ''.!?'') = {}"
  shows "sentence_split U text = (if strip U text = [] then [] else [strip U text])
         \<and> length (sentence_split U text) \<le> 1"
proof -
  have "\<forall>c\<in>set text. \<not> is_terminal c"
    using assms by (auto simp: is_terminal_def py_def)
  then have "re_split is_terminal text = [text]"
    by (rule re_split_no_separator)
  then show ?thesis
    by (simp add: sentence_split_def)
qed

theorem sentence_split_without_terminal_witness:
  "set (py ''  Plain words only '') \<inter> set (py ''.!?'') = {}
   \<and> sentence_split ascii (py ''  Plain words only '') = [py ''Plain words only'']
   \<and> set (py ''   '') \<inter> set (py ''.!?'') = {}
   \<and> sentence_split ascii (py ''   '') = []"
proof -
  have h1: "set (py ''  Plain words only '') \<inter> set (py ''.!?'') = {}" by code_simp
  have h2: "set (py ''   '') \<inter> set (py ''.!?'') = {}" by code_simp
  have s1: "strip ascii (py ''  Plain words only '') = py ''Plain words only''" by code_simp
  have s2: "strip ascii (py ''   '') = []" by code_simp
  have n1: "py ''Plain words only'' \<noteq> []" by code_simp
  from sentence_split_without_terminal [OF h1, of ascii] s1 n1
  have r1: "sentence_split ascii (py ''  Plain words only '') = [py ''Plain words only'']"
    by simp
  from sentence_split_without_terminal [OF h2, of ascii] s2
  have r2: "sentence_split ascii (py ''   '') = []"
    by simp
  from h1 h2 r1 r2 show ?thesis by blast
qed

section \<open>The metrics record\<close>

lemma avg_sentence_length_total: "\<exists>v. avg_sentence_length U sentences = Inr v"
  by (simp add: avg_sentence_length_def truediv_def Let_def)

lemma readability_checks_eq:
  assumes "avg_sentence_length U (sentence_split U text) = Inr v"
  shows "readability_checks U text =
           Inr \<lparr> total_words = word_count U text,
                 sentence_count = int (length (sentence_split U text)),
                 average_sentence_length = py_round1 v,
                 long_sentences_count =
                   int (length (filter (\<lambda>s. 20 < int (length (get_words U s)))
                                  (sentence_split U text))),
                 difficulty_estimate = difficulty v \<rparr>"
  using assms by (simp add: readability_checks_def Let_def)

lemma readability_checks_total: "\<exists>m. readability_checks U text = Inr m"
  using avg_sentence_length_total [of U "sentence_split U text"] readability_checks_eq
  by blast

text \<open>
  Claim C7. \<open>avg_sentence_length\<close> of the empty sentence list is 0; the division is
  never done on a zero divisor, whatever the list; and the metrics record of any text
  whose sentence count is 0 has the average sentence length 0.
\<close>

theorem avg_sentence_length_empty_is_zero:
  "avg_sentence_length U [] = Inr (PyInt 0)
   \<and> (\<forall>sentences. avg_sentence_length U sentences \<noteq> Inl (Exception ''ZeroDivisionError''))
   \<and> (\<exists>m. readability_checks U text = Inr m
          \<and> (sentence_count m = 0 \<longrightarrow> average_sentence_length m = PyInt 0))"
proof -
  have a: "avg_sentence_length U [] = Inr (PyInt 0)"
    by (simp add: avg_sentence_length_def)
  have b: "\<forall>sentences. avg_sentence_length U sentences \<noteq> Inl (Exception ''ZeroDivisionError'')"
    by (simp add: avg_sentence_length_def truediv_def Let_def)
  obtain v where v: "avg_sentence_length U (sentence_split U text) = Inr v"
    using avg_sentence_length_total by blast
  let ?m = "\<lparr> total_words = word_count U text,
               sentence_count = int (length (sentence_split U text)),
               average_sentence_length = py_round1 v,
               long_sentences_count =
                 int (length (filter (\<lambda>s. 20 < int (length (get_words U s)))
                                (sentence_split U text))),
               difficulty_estimate = difficulty v \<rparr>"
  have m: "readability_checks U text = Inr ?m"
    using v by (rule readability_checks_eq)
  have "sentence_count ?m = 0 \<longrightarrow> average_sentence_length ?m = PyInt 0"
  proof
    assume "sentence_count ?m = 0"
    then have "sentence_split U text = []" by simp
    with v a have "v = PyInt 0" by simp
    then show "average_sentence_length ?m = PyInt 0" by simp
  qed
  with a b m show ?thesis by blast
qed

theorem avg_sentence_length_empty_is_zero_witness:
  "sentence_count (projr (readability_checks ascii (py ''?! ..''))) = 0
   \<and> average_sentence_length (projr (readability_checks ascii (py ''?! ..''))) = PyInt 0"
proof -
  let ?t = "py ''?! ..''"
  from avg_sentence_length_empty_is_zero [of ascii ?t]
  obtain m where m: "readability_checks ascii ?t = Inr m"
    and imp: "sentence_count m = 0 \<longrightarrow> average_sentence_length m = PyInt 0"
    by blast
  have "sentence_count (projr (readability_checks ascii ?t)) = 0" by code_simp
  with m have z: "sentence_count m = 0" by simp
  with imp have "average_sentence_length m = PyInt 0" by simp
  with z m show ?thesis by simp
qed

text \<open>
  Claim C1, as the code has it. For every average sentence length the difficulty
  estimate is one of the three strings \<open>Easy (good for general audiences)\<close>,
  \<open>Moderate\<close> and \<open>Hard (consider shortening sentences)\<close>: the first below 12, the
  second from 12 on and below 20, the third from 20 on. The estimate in the metrics
  record of a text is the one of its average sentence length before rounding.
\<close>

theorem difficulty_estimate_bands:
  "(num_val a < 12 \<longrightarrow> difficulty a = py ''Easy (good for general audiences)'')
   \<and> (12 \<le> num_val a \<and> num_val a < 20 \<longrightarrow> difficulty a = py ''Moderate'')
   \<and> (20 \<le> num_val a \<longrightarrow> difficulty a = py ''Hard (consider shortening sentences)'')
   \<and> difficulty a \<in> {py ''Easy (good for general audiences)'', py ''Moderate'',
                       py ''Hard (consider shortening sentences)''}
   \<and> (\<exists>avg m. avg_sentence_length U (sentence_split U text) = Inr avg
               \<and> readability_checks U text = Inr m
               \<and> difficulty_estimate m = difficulty avg)"
proof -
  obtain v where v: "avg_sentence_length U (sentence_split U text) = Inr v"
    using avg_sentence_length_total by blast
  have "\<exists>m. readability_checks U text = Inr m \<and> difficulty_estimate m = difficulty v"
    by (simp add: readability_checks_eq [OF v])
  with v have link: "\<exists>avg m. avg_sentence_length U (sentence_split U text) = Inr avg
               \<and> readability_checks U text = Inr m
               \<and> difficulty_estimate m = difficulty avg"
    by blast
  have "(num_val a < 12 \<longrightarrow> difficulty a = py ''Easy (good for general audiences)'')
   \<and> (12 \<le> num_val a \<and> num_val a < 20 \<longrightarrow> difficulty a = py ''Moderate'')
   \<and> (20 \<le> num_val a \<longrightarrow> difficulty a = py ''Hard (consider shortening sentences)'')
   \<and> difficulty a \<in> {py ''Easy (good for general audiences)'', py ''Moderate'',
                       py ''Hard (consider shortening sentences)''}"
    by (simp add: difficulty_def)
  with link show ?thesis by blast
qed

theorem difficulty_estimate_bands_witness:
  "num_val (PyFloat (binary64 (119 / 10))) < 12
   \<and> difficulty (PyFloat (binary64 (119 / 10))) = py ''Easy (good for general audiences)''
   \<and> 12 \<le> num_val (PyFloat (binary64 12)) \<and> num_val (PyFloat (binary64 12)) < 20
   \<and> difficulty (PyFloat (binary64 12)) = py ''Moderate''
   \<and> 12 \<le> num_val (PyFloat (binary64 (199 / 10))) \<and> num_val (PyFloat (binary64 (199 / 10))) < 20
   \<and> difficulty (PyFloat (binary64 (199 / 10))) = py ''Moderate''
   \<and> 20 \<le> num_val (PyFloat (binary64 20))
   \<and> difficulty (PyFloat (binary64 20)) = py ''Hard (consider shortening sentences)''"
proof -
  have h1: "num_val (PyFloat (binary64 (119 / 10))) < 12" by code_simp
  have h2: "12 \<le> num_val (PyFloat (binary64 12)) \<and> num_val (PyFloat (binary64 12)) < 20"
    by code_simp
  have h3: "12 \<le> num_val (PyFloat (binary64 (199 / 10)))
            \<and> num_val (PyFloat (binary64 (199 / 10))) < 20"
    by code_simp
  have h4: "20 \<le> num_val (PyFloat (binary64 20))" by code_simp
  from h1 difficulty_estimate_bands [of "PyFloat (binary64 (119 / 10))"]
  have r1: "difficulty (PyFloat (binary64 (119 / 10))) = py ''Easy (good for general audiences)''"
    by blast
  from h2 difficulty_estimate_bands [of "PyFloat (binary64 12)"]
  have r2: "difficulty (PyFloat (binary64 12)) = py ''Moderate''"
    by blast
  from h3 difficulty_estimate_bands [of "PyFloat (binary64 (199 / 10))"]
  have r3: "difficulty (PyFloat (binary64 (199 / 10))) = py ''Moderate''"
    by blast
  from h4 difficulty_estimate_bands [of "PyFloat (binary64 20)"]
  have r4: "difficulty (PyFloat (binary64 20)) = py ''Hard (consider shortening sentences)''"
    by blast
  from h1 h2 h3 h4 r1 r2 r3 r4 show ?thesis by blast
qed

text \<open>
  Claim C1 as the specification states it fails: at the average 11.9 the estimate is
  \<open>Easy (good for general audiences)\<close>, which is not the string \<open>Easy\<close>.
\<close>

theorem difficulty_label_counterexample:
  "difficulty (PyFloat (binary64 (119 / 10))) = py ''Easy (good for general audiences)''
   \<and> difficulty (PyFloat (binary64 (119 / 10))) \<noteq> py ''Easy''"
  by code_simp

section \<open>Sorting, the heap and \<open>nlargest\<close>\<close>

lemma rev_insort_key:
  "sorted (map f a) \<Longrightarrow> rev (insort_key f e a) = ins_desc f e (rev a)"
proof (induction a)
  case Nil
  then show ?case by (simp add: ins_desc_def)
next
  case (Cons y a)
  show ?case
  proof (cases "f e \<le> f y")
    case True
    with Cons.prems have all: "\<forall>z\<in>set (rev a @ [y]). f e \<le> f z"
      by auto
    then have tw: "takeWhile (\<lambda>z. f e \<le> f z) (rev a @ [y]) = rev a @ [y]"
      and dw: "dropWhile (\<lambda>z. f e \<le> f z) (rev a @ [y]) = []"
      by (simp_all only: takeWhile_eq_all_conv dropWhile_eq_Nil_conv)
    have "rev (insort_key f e (y # a)) = rev a @ [y] @ [e]"
      using True by simp
    also have "\<dots> = ins_desc f e (rev (y # a))"
      unfolding ins_desc_def rev.simps tw dw by simp
    finally show ?thesis .
  next
    case False
    from Cons have ih: "rev (insort_key f e a) = ins_desc f e (rev a)" by simp
    from False show ?thesis
      by (simp add: ih) (simp add: ins_desc_def takeWhile_tail dropWhile_append3)
  qed
qed

lemma py_sorted_reverse_snoc:
  "py_sorted_reverse f (xs @ [e]) = ins_desc f e (py_sorted_reverse f xs)"
  by (simp add: py_sorted_reverse_def rev_insort_key)

lemma mset_py_sorted_reverse [simp]: "mset (py_sorted_reverse f xs) = mset xs"
  by (simp add: py_sorted_reverse_def)

lemma set_py_sorted_reverse [simp]: "set (py_sorted_reverse f xs) = set xs"
  by (simp add: py_sorted_reverse_def)

lemma length_py_sorted_reverse [simp]: "length (py_sorted_reverse f xs) = length xs"
  by (simp add: py_sorted_reverse_def)

lemma py_sorted_reverse_Nil_iff [simp]: "py_sorted_reverse f xs = [] \<longleftrightarrow> xs = []"
  by (metis length_0_conv length_py_sorted_reverse)

lemma py_sorted_reverse_descending:
  "sorted_wrt (\<lambda>a b. f b \<le> f a) (py_sorted_reverse f xs)"
proof -
  have "sorted (map f (sort_key f (rev xs)))" by simp
  then have "sorted_wrt (\<lambda>a b. f a \<le> f b) (sort_key f (rev xs))"
    by (simp only: sorted_map)
  then show ?thesis
    by (simp add: py_sorted_reverse_def sorted_wrt_rev)
qed

lemma py_sorted_reverse_stable:
  "filter (\<lambda>y. f y = k) (py_sorted_reverse f xs) = filter (\<lambda>y. f y = k) xs"
  by (simp add: py_sorted_reverse_def rev_filter [symmetric] sort_key_stable)

lemma filter_key_distinct:
  "distinct (map f ys) \<Longrightarrow> k \<in> set ys \<Longrightarrow> filter (\<lambda>x. f k = f x) ys = [k]"
proof (induction ys)
  case Nil
  then show ?case by simp
next
  case (Cons y ys)
  show ?case
  proof (cases "k = y")
    case True
    from Cons.prems(1) have "\<forall>x\<in>set ys. f y \<noteq> f x" by auto
    then have "filter (\<lambda>x. f y = f x) ys = []"
      by (simp only: filter_empty_conv)
    with True show ?thesis by simp
  next
    case False
    with Cons.prems have k: "k \<in> set ys" by simp
    with Cons.prems(1) have "f k \<noteq> f y" by (auto simp: image_iff)
    with Cons k show ?thesis by simp
  qed
qed

lemma sort_key_unique:
  assumes "distinct (map f zs)" and "mset ys = mset zs" and "sorted (map f ys)"
  shows "sort_key f zs = ys"
proof (rule properties_for_sort_key [OF assms(2) _ assms(3)])
  fix k assume k: "k \<in> set ys"
  from assms(2) have "mset (map f ys) = mset (map f zs)" by simp
  with assms(1) have dy: "distinct (map f ys)"
    by (metis mset_eq_imp_distinct_iff)
  from k assms(2) have kz: "k \<in> set zs"
    by (metis mset_eq_setD)
  show "filter (\<lambda>x. f k = f x) ys = filter (\<lambda>x. f k = f x) zs"
    by (simp add: filter_key_distinct [OF dy k] filter_key_distinct [OF assms(1) kz])
qed


lemma fold_least:
  "fold (\<lambda>v best. if g v < g best then v else best) xs x \<in> set (x # xs)
   \<and> (\<forall>y\<in>set (x # xs). g (fold (\<lambda>v best. if g v < g best then v else best) xs x) \<le> (g y :: 'b::linorder))"
proof (induction xs arbitrary: x)
  case Nil
  then show ?case by simp
next
  case (Cons a xs)
  show ?case
    using Cons.IH [of a] Cons.IH [of x] by (auto simp del: fold_simps simp add: fold.simps)
qed

lemma heap_top_least:
  assumes "h \<noteq> []"
  shows "heap_top h \<in> set h \<and> (\<forall>y\<in>set h. prio (heap_top h) \<le> prio y)"
proof -
  from assms obtain x xs where h: "h = x # xs" by (cases h) auto
  show ?thesis
    unfolding h heap_top.simps by (rule fold_least)
qed

lemma sorted_wrt_last:
  "sorted_wrt R xs \<Longrightarrow> y \<in> set (butlast xs) \<Longrightarrow> R y (last xs)"
  by (metis append_butlast_last_id butlast.simps(1) list.distinct(1)
    list.set_cases list.set_intros(1) sorted_wrt_append)

lemma heap_top_is_last:
  assumes "h \<noteq> []" and "distinct (map prio h)"
  shows "heap_top h = last (py_sorted_reverse prio h)"
proof -
  let ?L = "py_sorted_reverse prio h"
  have ne: "?L \<noteq> []"
    using assms(1) by (metis length_0_conv length_py_sorted_reverse)
  then have lin: "last ?L \<in> set h"
    using last_in_set [of ?L] by simp
  have desc: "sorted_wrt (\<lambda>a b. prio b \<le> prio a) ?L"
    by (rule py_sorted_reverse_descending)
  have least: "\<forall>y\<in>set h. prio (last ?L) \<le> prio y"
  proof
    fix y assume "y \<in> set h"
    then have "y \<in> set (butlast ?L @ [last ?L])"
      using ne by simp
    then have "y \<in> set (butlast ?L) \<or> y = last ?L"
      by auto
    then show "prio (last ?L) \<le> prio y"
      using sorted_wrt_last [OF desc, of y] by blast
  qed
  from heap_top_least [OF assms(1)]
  have t: "heap_top h \<in> set h" and tl: "\<forall>y\<in>set h. prio (heap_top h) \<le> prio y"
    by auto
  have "prio (heap_top h) = prio (last ?L)"
    using t tl least lin by (auto intro: antisym)
  moreover have "inj_on prio (set h)"
    using assms(2) by (simp add: distinct_map)
  ultimately show ?thesis
    using t lin by (auto dest: inj_onD)
qed

lemma heapreplace_sorted:
  assumes ne: "h \<noteq> []" and d: "distinct (map prio h)" and new: "prio x \<notin> prio ` set h"
  shows "py_sorted_reverse prio (heapreplace h x)
           = ins_desc prio x (butlast (py_sorted_reverse prio h))"
proof -
  let ?A = "sort_key prio (rev h)"
  have A: "?A \<noteq> []"
    using ne by (metis length_0_conv length_sort length_rev)
  have top: "heap_top h = hd ?A"
    using heap_top_is_last [OF ne d] A by (simp add: py_sorted_reverse_def last_rev)
  have sorted_tl: "sorted (map prio (tl ?A))"
    by (metis sorted_sort_key map_tl sorted_tl)
  let ?zs = "rev (x # remove1 (heap_top h) h)"
  let ?ys = "insort_key prio x (tl ?A)"
  have inj: "inj_on prio (set h)" using d by (simp add: distinct_map)
  have sub: "set (remove1 (heap_top h) h) \<subseteq> set h"
    by (rule set_remove1_subset)
  have "distinct (map prio (remove1 (heap_top h) h))"
    using d sub by (auto simp: distinct_map intro: inj_on_subset)
  moreover have "prio x \<notin> prio ` set (remove1 (heap_top h) h)"
    using new sub by auto
  ultimately have "distinct (map prio (x # remove1 (heap_top h) h))"
    by simp
  then have dz: "distinct (map prio ?zs)"
    by (simp only: rev_map [symmetric] distinct_rev)
  have "mset (tl ?A) = mset ?A - {#hd ?A#}"
    using A by (cases ?A) auto
  then have ms: "mset ?ys = mset ?zs"
    by (simp add: top)
  have so: "sorted (map prio ?ys)"
    using sorted_tl by (simp add: sorted_insort_key)
  have "sort_key prio ?zs = ?ys"
    by (rule sort_key_unique [OF dz ms so])
  then have "py_sorted_reverse prio (heapreplace h x) = rev ?ys"
    by (simp add: py_sorted_reverse_def heapreplace_def)
  also have "\<dots> = ins_desc prio x (rev (tl ?A))"
    by (rule rev_insort_key [OF sorted_tl])
  also have "rev (tl ?A) = butlast (py_sorted_reverse prio h)"
    by (simp add: py_sorted_reverse_def butlast_rev)
  finally show ?thesis .
qed


lemma ins_desc_entries:
  assumes "\<forall>y\<in>set L. fst y = key (snd (snd y)) \<and> ord < fst (snd y)"
  shows "map (\<lambda>en. snd (snd en)) (ins_desc prio (key e, ord, e) L)
           = ins_desc key e (map (\<lambda>en. snd (snd en)) L)"
proof -
  have P: "\<And>y. y \<in> set L \<Longrightarrow>
             (prio (key e, ord, e) \<le> prio y) = ((\<lambda>z. key e \<le> key z) \<circ> (\<lambda>en. snd (snd en))) y"
    using assms by (auto simp: prio_def less_eq_prod_def)
  have tw: "takeWhile (\<lambda>y. prio (key e, ord, e) \<le> prio y) L
              = takeWhile ((\<lambda>z. key e \<le> key z) \<circ> (\<lambda>en. snd (snd en))) L"
    by (rule takeWhile_cong) (simp_all add: P)
  have dw: "dropWhile (\<lambda>y. prio (key e, ord, e) \<le> prio y) L
              = dropWhile ((\<lambda>z. key e \<le> key z) \<circ> (\<lambda>en. snd (snd en))) L"
    by (rule dropWhile_cong) (simp_all add: P)
  show ?thesis
    unfolding ins_desc_def tw dw by (simp add: takeWhile_map dropWhile_map)
qed

lemma take_ins_desc_in:
  assumes j: "j < length ys" and n: "\<not> f e \<le> f (ys ! j)"
  shows "take (Suc j) (ins_desc f e ys) = ins_desc f e (take j ys)"
proof -
  let ?P = "\<lambda>y. f e \<le> f y"
  let ?tw = "takeWhile ?P ys" and ?dw = "dropWhile ?P ys"
  have len: "length ?tw \<le> j"
    by (metis linorder_not_less n nth_mem set_takeWhileD takeWhile_nth)
  have ys: "ys = ?tw @ ?dw" by simp
  have tk: "take j ys = ?tw @ take (j - length ?tw) ?dw"
    using len by (subst ys) (simp del: takeWhile_dropWhile_id)
  have dwne: "?dw \<noteq> []"
    using len j by (metis ys append_Nil2 not_le order.strict_trans1 leD)
  have hd: "\<not> ?P (hd ?dw)"
    using dwne by (rule hd_dropWhile)
  have t2: "takeWhile ?P (take (j - length ?tw) ?dw) = []"
    by (metis bot_nat_0.not_eq_extremum hd_dropWhile hd_take
      takeWhile_eq_Nil_iff take_eq_Nil)
  have d2: "dropWhile ?P (take (j - length ?tw) ?dw) = take (j - length ?tw) ?dw"
    by (metis takeWhile_dropWhile_id t2 append_Nil)
  have all: "\<And>x. x \<in> set ?tw \<Longrightarrow> ?P x"
    by (rule set_takeWhileD [THEN conjunct2])
  have t3: "takeWhile ?P (take j ys) = ?tw"
    unfolding tk by (simp add: takeWhile_append2 [OF all] t2)
  have d3: "dropWhile ?P (take j ys) = take (j - length ?tw) ?dw"
    unfolding tk by (simp add: dropWhile_append2 [OF all] d2)
  show ?thesis
    unfolding ins_desc_def t3 d3 using len by (simp add: Suc_diff_le)
qed

lemma take_ins_desc_out:
  assumes m: "m \<le> length ys" and a: "\<forall>i<m. f e \<le> f (ys ! i)"
  shows "take m (ins_desc f e ys) = take m ys"
proof -
  let ?P = "\<lambda>y. f e \<le> f y"
  let ?tw = "takeWhile ?P ys" and ?dw = "dropWhile ?P ys"
  have len: "m \<le> length ?tw"
    by (metis a length_takeWhile_le linorder_le_less_linear m nless_le
      nth_length_takeWhile)
  have "take m ys = take m (?tw @ ?dw)" by simp
  also have "\<dots> = take m ?tw" using len by (simp del: takeWhile_dropWhile_id)
  finally show ?thesis
    unfolding ins_desc_def using len by simp
qed


lemma decorate_snoc:
  "length xs < nat n \<Longrightarrow>
   decorate key n (xs @ [e]) = decorate key n xs @ [(key e, - int (length xs), e)]"
proof -
  assume l: "length xs < nat n"
  let ?rd = "py_range_down n"
  have a: "zip ?rd (xs @ [e]) = zip (take (length xs) ?rd) xs @ zip (drop (length xs) ?rd) [e]"
    by (rule zip_append2)
  have b: "zip (take (length xs) ?rd) xs = zip ?rd xs"
    by (metis append.right_neutral zip.simps(1) zip_append2)
  have "drop (length xs) ?rd = map (\<lambda>i. - int i) [length xs..<nat n]"
    by (simp add: py_range_down_def drop_map)
  also have "\<dots> = (- int (length xs)) # map (\<lambda>i. - int i) [Suc (length xs)..<nat n]"
    using l by (simp add: upt_conv_Cons)
  finally have c: "zip (drop (length xs) ?rd) [e] = [(- int (length xs), e)]"
    by simp
  show ?thesis
    unfolding decorate_def a b c by simp
qed


lemma prio_fresh:
  assumes "\<forall>en\<in>set h. ord < fst (snd en)"
  shows "prio (k, ord, e) \<notin> prio ` set h"
  using assms by (auto simp: prio_def)

lemma decorate_inv:
  "length p \<le> nat n \<Longrightarrow> heap_inv key (length p) p (decorate key n p, - int (length p))"
proof (induction p rule: rev_induct)
  case Nil
  then show ?case by (simp add: heap_inv_def decorate_def py_sorted_reverse_def)
next
  case (snoc e p)
  let ?D = "decorate key n p" and ?x = "(key e, - int (length p), e)"
  from snoc.prems have l: "length p < nat n" by simp
  with snoc.IH have ih: "heap_inv key (length p) p (?D, - int (length p))" by simp
  have D: "decorate key n (p @ [e]) = ?D @ [?x]"
    using l by (rule decorate_snoc)
  from ih have ents: "\<forall>y\<in>set (py_sorted_reverse prio ?D).
                        fst y = key (snd (snd y)) \<and> - int (length p) < fst (snd y)"
    by (simp add: heap_inv_def)
  have "map (\<lambda>en. snd (snd en)) (py_sorted_reverse prio (?D @ [?x]))
          = ins_desc key e (map (\<lambda>en. snd (snd en)) (py_sorted_reverse prio ?D))"
    by (simp only: py_sorted_reverse_snoc ins_desc_entries [OF ents])
  also have "\<dots> = ins_desc key e (py_sorted_reverse key p)"
    using ih by (simp add: heap_inv_def)
  also have "\<dots> = py_sorted_reverse key (p @ [e])"
    by (simp only: py_sorted_reverse_snoc)
  finally have i: "map (\<lambda>en. snd (snd en)) (py_sorted_reverse prio (?D @ [?x]))
                     = take (length (p @ [e])) (py_sorted_reverse key (p @ [e]))"
    by simp
  have ii: "\<forall>en\<in>set (?D @ [?x]). fst en = key (snd (snd en)) \<and> - int (length (p @ [e])) < fst (snd en)"
    using ih by (auto simp: heap_inv_def)
  have "prio ?x \<notin> prio ` set ?D"
    using ih by (intro prio_fresh) (simp add: heap_inv_def)
  then have iii: "distinct (map prio (?D @ [?x]))"
    using ih by (simp add: heap_inv_def)
  from i ii iii show ?case
    unfolding D heap_inv_def by simp
qed


lemma last_take_nth:
  assumes "1 \<le> m" and "m \<le> length ys"
  shows "last (take m ys) = ys ! (m - 1)"
proof -
  from assms have "take m ys \<noteq> []" by auto
  then have "last (take m ys) = take m ys ! (length (take m ys) - 1)"
    by (rule last_conv_nth)
  with assms show ?thesis by simp
qed

lemma heap_inv_step:
  assumes inv: "heap_inv key m p st" and m: "1 \<le> m" and len: "m \<le> length p"
  shows "heap_inv key m (p @ [e]) (nlargest_step key e st)"
proof -
  obtain h ord where st: "st = (h, ord)" by (cases st)
  let ?L = "py_sorted_reverse prio h" and ?S = "py_sorted_reverse key p"
  let ?el = "\<lambda>en :: 'b \<times> int \<times> 'a. snd (snd en)"
  from inv st have i: "map ?el ?L = take m ?S"
    and ii: "\<forall>en\<in>set h. fst en = key (snd (snd en)) \<and> ord < fst (snd en)"
    and iii: "distinct (map prio h)"
    by (simp_all add: heap_inv_def)
  have lenL: "length h = m"
    using arg_cong [OF i, of length] len by simp
  with m have hne: "h \<noteq> []" by auto
  then have Lne: "?L \<noteq> []" by simp
  have top: "heap_top h = last ?L"
    using hne iii by (rule heap_top_is_last)
  have "last ?L \<in> set h"
    using Lne last_in_set [of ?L] by simp
  with ii have "fst (last ?L) = key (?el (last ?L))" by blast
  also have "?el (last ?L) = last (map ?el ?L)"
    using Lne by (simp add: last_map)
  also have "\<dots> = ?S ! (m - 1)"
    using len m by (simp only: i) (simp add: last_take_nth)
  finally have topkey: "fst (heap_top h) = key (?S ! (m - 1))"
    by (simp only: top)
  have snoc: "py_sorted_reverse key (p @ [e]) = ins_desc key e ?S"
    by (rule py_sorted_reverse_snoc)
  show ?thesis
  proof (cases "fst (heap_top h) < key e")
    case True
    let ?x = "(key e, ord, e)"
    have step: "nlargest_step key e st = (heapreplace h ?x, ord - 1)"
      using True by (simp add: nlargest_step_def st)
    have fresh: "prio ?x \<notin> prio ` set h"
      using ii by (intro prio_fresh) simp
    have ents: "\<forall>y\<in>set (butlast ?L). fst y = key (snd (snd y)) \<and> ord < fst (snd y)"
      using ii by (auto dest!: in_set_butlastD)
    have "map ?el (py_sorted_reverse prio (heapreplace h ?x))
            = ins_desc key e (map ?el (butlast ?L))"
      by (simp only: heapreplace_sorted [OF hne iii fresh] ins_desc_entries [OF ents])
    also have "map ?el (butlast ?L) = take (m - 1) ?S"
      using len by (simp add: map_butlast i butlast_take)
    also have "ins_desc key e (take (m - 1) ?S) = take (Suc (m - 1)) (ins_desc key e ?S)"
      using True topkey len m by (intro take_ins_desc_in [symmetric]) simp_all
    finally have i': "map ?el (py_sorted_reverse prio (heapreplace h ?x))
                        = take m (py_sorted_reverse key (p @ [e]))"
      using m by (simp add: snoc)
    have sub: "set (remove1 (heap_top h) h) \<subseteq> set h"
      by (rule set_remove1_subset)
    have ii': "\<forall>en\<in>set (heapreplace h ?x). fst en = key (snd (snd en)) \<and> ord - 1 < fst (snd en)"
    proof
      fix en assume "en \<in> set (heapreplace h ?x)"
      then have "en = ?x \<or> en \<in> set h"
        using sub by (auto simp: heapreplace_def)
      then show "fst en = key (snd (snd en)) \<and> ord - 1 < fst (snd en)"
      proof
        assume "en = ?x"
        then show ?thesis by simp
      next
        assume "en \<in> set h"
        with ii have "fst en = key (snd (snd en)) \<and> ord < fst (snd en)" by blast
        then show ?thesis by simp
      qed
    qed
    have "distinct (map prio (remove1 (heap_top h) h))"
      using iii sub by (auto simp: distinct_map intro: inj_on_subset)
    moreover have "prio ?x \<notin> prio ` set (remove1 (heap_top h) h)"
      using fresh sub by auto
    ultimately have iii': "distinct (map prio (heapreplace h ?x))"
      by (simp add: heapreplace_def)
    from i' ii' iii' show ?thesis
      by (simp add: step heap_inv_def)
  next
    case False
    have step: "nlargest_step key e st = (h, ord)"
      using False by (simp add: nlargest_step_def st)
    have desc: "sorted_wrt (\<lambda>a b. key b \<le> key a) ?S"
      by (rule py_sorted_reverse_descending)
    have "\<forall>i<m. key e \<le> key (?S ! i)"
    proof (intro allI impI)
      fix i assume im: "i < m"
      have "key (?S ! (m - 1)) \<le> key (?S ! i)"
      proof (cases "i = m - 1")
        case True
        then show ?thesis by simp
      next
        case False
        with im have "i < m - 1" by simp
        moreover have "m - 1 < length ?S" using len m by simp
        ultimately show ?thesis
          using desc by (simp add: sorted_wrt_iff_nth_less)
      qed
      with False topkey show "key e \<le> key (?S ! i)" by simp
    qed
    then have "take m (ins_desc key e ?S) = take m ?S"
      using len by (intro take_ins_desc_out) simp_all
    with i ii iii show ?thesis
      by (simp add: step heap_inv_def snoc)
  qed
qed

lemma heap_inv_fold:
  "heap_inv key m p st \<Longrightarrow> 1 \<le> m \<Longrightarrow> m \<le> length p \<Longrightarrow>
   heap_inv key m (p @ rest) (fold (nlargest_step key) rest st)"
proof (induction rest arbitrary: p st)
  case Nil
  then show ?case by simp
next
  case (Cons e rest)
  from Cons.prems have "heap_inv key m (p @ [e]) (nlargest_step key e st)"
    by (intro heap_inv_step)
  then have "heap_inv key m ((p @ [e]) @ rest) (fold (nlargest_step key) rest (nlargest_step key e st))"
    using Cons.prems by (intro Cons.IH) simp_all
  then show ?case by simp
qed


lemma hd_ins_desc:
  "ys \<noteq> [] \<Longrightarrow> hd (ins_desc f e ys) = (if f (hd ys) < f e then e else hd ys)"
  by (cases ys) (auto simp: ins_desc_def)

lemma ins_desc_not_Nil [simp]: "ins_desc f e ys \<noteq> []"
  by (simp add: ins_desc_def)

lemma py_max_is_first:
  "py_max key (x # xs) = Some (hd (py_sorted_reverse key (x # xs)))"
proof -
  have "fold (\<lambda>v best. if key best < key v then v else best) xs x
          = hd (py_sorted_reverse key (x # xs))"
  proof (induction xs rule: rev_induct)
    case Nil
    then show ?case by (simp add: py_sorted_reverse_def)
  next
    case (snoc e xs)
    have "py_sorted_reverse key (x # xs @ [e]) = ins_desc key e (py_sorted_reverse key (x # xs))"
      using py_sorted_reverse_snoc [of key "x # xs" e] by simp
    then show ?case
      using snoc by (simp add: hd_ins_desc)
  qed
  then show ?thesis by simp
qed

lemma decorate_take:
  "decorate key n xs = decorate key n (take (nat n) xs)"
proof -
  have "length (py_range_down n) = nat n" by (simp add: py_range_down_def)
  then have "zip (py_range_down n) xs = zip (py_range_down n) (take (nat n) xs)"
    by (metis (no_types, lifting) length_take map_fst_zip_take
      map_snd_zip_take min.idem take_take zip_map_fst_snd)
  then show ?thesis by (simp add: decorate_def)
qed

lemma nlargest_eq:
  "nlargest n key xs = take (nat n) (py_sorted_reverse key xs)"
proof (cases "n = 1")
  case True
  show ?thesis
  proof (cases xs)
    case Nil
    with True show ?thesis by (simp add: nlargest_def py_sorted_reverse_def)
  next
    case (Cons x xs')
    have "py_sorted_reverse key (x # xs') \<noteq> []" by simp
    then have "take 1 (py_sorted_reverse key (x # xs')) = [hd (py_sorted_reverse key (x # xs'))]"
      by (cases "py_sorted_reverse key (x # xs')") simp_all
    with True Cons show ?thesis
      by (simp add: nlargest_def py_max_is_first del: py_max.simps)
  qed
next
  case n1: False
  show ?thesis
  proof (cases "int (length xs) \<le> n")
    case True
    with n1 show ?thesis by (simp add: nlargest_def)
  next
    case False
    show ?thesis
    proof (cases "n \<le> 0")
      case True
      then have "py_range_down n = []" by (simp add: py_range_down_def)
      with n1 False True show ?thesis by (simp add: nlargest_def)
    next
      case pos: False
      let ?m = "nat n"
      let ?p = "take ?m xs" and ?rest = "drop ?m xs"
      from pos False have lp: "length ?p = ?m" by simp
      from pos n1 have m1: "1 \<le> ?m" by simp
      have res: "map (\<lambda>(i, elem). (key elem, i, elem)) (zip (py_range_down n) xs) = decorate key n ?p"
        using decorate_take [of key n xs] by (simp add: decorate_def)
      have lres: "length (decorate key n ?p) = ?m"
        using lp by (simp add: decorate_def py_range_down_def)
      with m1 have ne: "decorate key n ?p \<noteq> []" by auto
      have "heap_inv key (length ?p) ?p (decorate key n ?p, - int (length ?p))"
        using lp by (intro decorate_inv) simp
      then have "heap_inv key ?m ?p (decorate key n ?p, - n)"
        using lp pos by simp
      then have "heap_inv key ?m (?p @ ?rest) (fold (nlargest_step key) ?rest (decorate key n ?p, - n))"
        using m1 lp by (intro heap_inv_fold) simp_all
      then have "map (\<lambda>en. snd (snd en))
                   (py_sorted_reverse prio (fst (fold (nlargest_step key) ?rest (decorate key n ?p, - n))))
                 = take ?m (py_sorted_reverse key xs)"
        by (simp add: heap_inv_def)
      with n1 False ne lres show ?thesis
        by (simp add: nlargest_def res Let_def)
    qed
  qed
qed


lemma map_fst_count_element:
  "map fst (count_element w m) = (if w \<in> fst ` set m then map fst m else map fst m @ [w])"
proof (induction m)
  case Nil
  then show ?case by simp
next
  case (Cons p m)
  obtain v c where p: "p = (v, c)" by (cases p)
  show ?case
  proof (cases "v = w")
    case True
    then show ?thesis by (simp add: p)
  next
    case False
    then have "w \<in> fst ` set (p # m) \<longleftrightarrow> w \<in> fst ` set m"
      by (auto simp: p)
    with False Cons show ?thesis by (simp add: p)
  qed
qed

lemma Counter_snoc: "Counter (ws @ [w]) = count_element w (Counter ws)"
  by (simp add: Counter_def)

lemma keys_Counter: "fst ` set (Counter ws) = set ws"
proof (induction ws rule: rev_induct)
  case Nil
  then show ?case by (simp add: Counter_def)
next
  case (snoc w ws)
  have "fst ` set (Counter (ws @ [w])) = set (map fst (count_element w (Counter ws)))"
    by (simp add: Counter_snoc)
  also have "\<dots> = insert w (set ws)"
    using snoc by (auto simp: map_fst_count_element)
  finally show ?case by simp
qed

lemma distinct_keys_Counter: "distinct (map fst (Counter ws))"
proof (induction ws rule: rev_induct)
  case Nil
  then show ?case by (simp add: Counter_def)
next
  case (snoc w ws)
  then show ?case
    by (simp add: Counter_snoc map_fst_count_element)
qed

lemma first_index_snoc:
  "a \<in> set ws \<Longrightarrow> first_index a (ws @ [w]) = first_index a ws"
  by (simp add: first_index_def takeWhile_append1)

lemma first_index_less: "a \<in> set ws \<Longrightarrow> first_index a ws < length ws"
  unfolding first_index_def by (induction ws) auto

lemma first_index_new: "w \<notin> set ws \<Longrightarrow> first_index w (ws @ [w]) = length ws"
  unfolding first_index_def by (induction ws) auto

lemma Counter_first_order:
  "sorted_wrt (\<lambda>a b. first_index a ws < first_index b ws) (map fst (Counter ws))"
proof (induction ws rule: rev_induct)
  case Nil
  then show ?case by (simp add: Counter_def)
next
  case (snoc w ws)
  let ?ks = "map fst (Counter ws)"
  have ks: "set ?ks = set ws" using keys_Counter [of ws] by simp
  have old: "sorted_wrt (\<lambda>a b. first_index a (ws @ [w]) < first_index b (ws @ [w])) ?ks"
    using snoc
    by (rule sorted_wrt_mono_rel [rotated]) (simp add: keys_Counter first_index_snoc)
  show ?case
  proof (cases "w \<in> set ws")
    case True
    with old show ?thesis
      by (simp add: Counter_snoc map_fst_count_element keys_Counter)
  next
    case False
    have "\<forall>a\<in>set ?ks. first_index a (ws @ [w]) < first_index w (ws @ [w])"
    proof
      fix a assume "a \<in> set ?ks"
      with ks have "a \<in> set ws" by simp
      then show "first_index a (ws @ [w]) < first_index w (ws @ [w])"
        using False by (simp add: first_index_snoc first_index_less first_index_new)
    qed
    with old False show ?thesis
      by (simp add: Counter_snoc map_fst_count_element keys_Counter sorted_wrt_append)
  qed
qed

lemma map_of_count_element:
  "map_of (count_element w m) = (map_of m)(w \<mapsto> (case map_of m w of None \<Rightarrow> 1 | Some c \<Rightarrow> c + 1))"
  by (induction m) (auto simp: fun_eq_iff)

lemma map_of_Counter:
  "map_of (Counter ws) w = (if w \<in> set ws then Some (int (count_list ws w)) else None)"
proof (induction ws rule: rev_induct)
  case Nil
  then show ?case by (simp add: Counter_def)
next
  case (snoc v ws)
  then show ?case
    by (auto simp: Counter_snoc map_of_count_element)
qed

lemma Counter_counts:
  assumes "(w, c) \<in> set (Counter ws)"
  shows "c = int (count_list ws w) \<and> w \<in> set ws"
proof -
  from assms have "map_of (Counter ws) w = Some c"
    using distinct_keys_Counter [of ws] by simp
  then show ?thesis
    by (simp add: map_of_Counter split: if_splits)
qed

lemma sorted_wrt_by_class:
  "(\<And>k. sorted_wrt Q (filter (\<lambda>y. f y = k) ys)) \<Longrightarrow>
   sorted_wrt (\<lambda>a b. f a = f b \<longrightarrow> Q a b) ys"
proof (induction ys)
  case Nil
  then show ?case by simp
next
  case (Cons y ys)
  have tl: "\<And>k. sorted_wrt Q (filter (\<lambda>y. f y = k) ys)"
  proof -
    fix k
    from Cons.prems [of k] show "sorted_wrt Q (filter (\<lambda>y. f y = k) ys)"
      by (cases "f y = k") simp_all
  qed
  have "\<forall>b\<in>set ys. f y = f b \<longrightarrow> Q y b"
    using Cons.prems [of "f y"] by auto
  with Cons.IH [OF tl] show ?case by simp
qed

lemma most_common_eq: "most_common n c = take (nat n) (py_sorted_reverse snd c)"
  by (simp add: most_common_def nlargest_eq)

lemma most_common_tie_order:
  "sorted_wrt (\<lambda>a b. snd a = snd b \<longrightarrow> first_index (fst a) ws < first_index (fst b) ws)
     (most_common n (Counter ws))"
proof -
  let ?Q = "\<lambda>a b :: 'a \<times> int. first_index (fst a) ws < first_index (fst b) ws"
  have items: "sorted_wrt ?Q (Counter ws)"
    using Counter_first_order [of ws] by (simp add: sorted_wrt_map)
  have "\<And>k. sorted_wrt ?Q (filter (\<lambda>y. snd y = k) (py_sorted_reverse snd (Counter ws)))"
    using items by (simp add: py_sorted_reverse_stable sorted_wrt_filter)
  then have "sorted_wrt (\<lambda>a b. snd a = snd b \<longrightarrow> ?Q a b) (py_sorted_reverse snd (Counter ws))"
    by (rule sorted_wrt_by_class)
  then show ?thesis
    by (simp add: most_common_eq sorted_wrt_take)
qed

section \<open>The keyword table\<close>

lemma keyword_frequency_eq:
  "keyword_frequency U text top_n stopwords =
     take (nat top_n) (py_sorted_reverse snd (Counter (filtered_words U text stopwords)))"
  by (simp add: keyword_frequency_def most_common_eq)

text \<open>
  Claim C4. With the default stopword set, for every text and every \<open>top_n\<close>, the table
  \<open>keyword_frequency\<close> returns holds no default stopword, gives each word with the
  number of its occurrences among the words kept, and is in descending order of
  frequency; it has at most \<open>top_n\<close> entries for every \<open>top_n\<close> that is a count (not
  negative), and no entry for a negative one.
\<close>

theorem keyword_frequency_contract:
  "(\<forall>(w, c)\<in>set (keyword_frequency U text top_n None).
      w \<notin> default_stopwords \<and> c = int (count_list (filtered_words U text None) w))
   \<and> (0 \<le> top_n \<longrightarrow> int (length (keyword_frequency U text top_n None)) \<le> top_n)
   \<and> length (keyword_frequency U text top_n None) \<le> nat top_n
   \<and> sorted_wrt (\<lambda>a b. snd b \<le> snd a) (keyword_frequency U text top_n None)"
proof -
  let ?ws = "filtered_words U text None"
  let ?r = "keyword_frequency U text top_n None"
  have r: "?r = take (nat top_n) (py_sorted_reverse snd (Counter ?ws))"
    by (rule keyword_frequency_eq)
  have kept: "\<forall>w\<in>set ?ws. w \<notin> default_stopwords"
    by (simp add: filtered_words_def)
  have a: "\<forall>(w, c)\<in>set ?r. w \<notin> default_stopwords \<and> c = int (count_list ?ws w)"
  proof (intro ballI, clarify)
    fix w c assume "(w, c) \<in> set ?r"
    then have "(w, c) \<in> set (Counter ?ws)"
      unfolding r using set_take_subset [of "nat top_n" "py_sorted_reverse snd (Counter ?ws)"]
      by auto
    then have "c = int (count_list ?ws w) \<and> w \<in> set ?ws"
      by (rule Counter_counts)
    with kept show "w \<notin> default_stopwords \<and> c = int (count_list ?ws w)"
      by blast
  qed
  have l: "length ?r \<le> nat top_n"
    unfolding r by simp
  then have b: "0 \<le> top_n \<longrightarrow> int (length ?r) \<le> top_n"
    by arith
  have c: "sorted_wrt (\<lambda>a b. snd b \<le> snd a) ?r"
    unfolding r by (intro sorted_wrt_take py_sorted_reverse_descending)
  from a b l c show ?thesis by blast
qed

theorem keyword_frequency_contract_witness:
  "keyword_frequency ascii (py ''SEO is great. SEO helps. SEO helps websites rank.'') 2 None
     = [(py ''seo'', 3), (py ''helps'', 2)]
   \<and> py ''seo'' \<notin> default_stopwords \<and> py ''helps'' \<notin> default_stopwords
   \<and> int (count_list (filtered_words ascii
            (py ''SEO is great. SEO helps. SEO helps websites rank.'') None) (py ''seo'')) = 3
   \<and> (0::int) \<le> 2
   \<and> int (length (keyword_frequency ascii
            (py ''SEO is great. SEO helps. SEO helps websites rank.'') 2 None)) \<le> 2"
proof -
  let ?t = "py ''SEO is great. SEO helps. SEO helps websites rank.''"
  have e: "keyword_frequency ascii ?t 2 None = [(py ''seo'', 3), (py ''helps'', 2)]"
    by code_simp
  note T = keyword_frequency_contract [of ascii ?t 2]
  from T have "\<forall>(w, c)\<in>set (keyword_frequency ascii ?t 2 None).
      w \<notin> default_stopwords \<and> c = int (count_list (filtered_words ascii ?t None) w)"
    by blast
  then have a: "py ''seo'' \<notin> default_stopwords \<and> py ''helps'' \<notin> default_stopwords
      \<and> int (count_list (filtered_words ascii ?t None) (py ''seo'')) = 3"
    unfolding e by simp
  from T have b: "int (length (keyword_frequency ascii ?t 2 None)) \<le> 2"
    by simp
  from e a b show ?thesis by simp
qed

text \<open>
  Claim C5. For every text, \<open>top_n\<close> and stopword set, of two entries of the returned
  table with the same frequency the word whose first occurrence in the filtered token
  sequence is the earlier one comes first in the table, and only that one does.
\<close>

theorem keyword_frequency_tie_order:
  assumes "i < length (keyword_frequency U text top_n stopwords)"
    and "j < length (keyword_frequency U text top_n stopwords)"
    and "snd (keyword_frequency U text top_n stopwords ! i)
           = snd (keyword_frequency U text top_n stopwords ! j)"
  shows "first_index (fst (keyword_frequency U text top_n stopwords ! i))
             (filtered_words U text stopwords)
           < first_index (fst (keyword_frequency U text top_n stopwords ! j))
             (filtered_words U text stopwords)
         \<longleftrightarrow> i < j"
proof -
  let ?ws = "filtered_words U text stopwords"
  let ?r = "keyword_frequency U text top_n stopwords"
  let ?fi = "\<lambda>k. first_index (fst (?r ! k)) ?ws"
  have s: "sorted_wrt (\<lambda>a b. snd a = snd b \<longrightarrow> first_index (fst a) ?ws < first_index (fst b) ?ws) ?r"
    unfolding keyword_frequency_def by (rule most_common_tie_order)
  have fwd: "\<And>a b. a < b \<Longrightarrow> b < length ?r \<Longrightarrow> snd (?r ! a) = snd (?r ! b) \<Longrightarrow> ?fi a < ?fi b"
    using sorted_wrt_nth_less [OF s] by blast
  show ?thesis
  proof
    assume lt: "?fi i < ?fi j"
    show "i < j"
    proof (rule ccontr)
      assume "\<not> i < j"
      then consider "i = j" | "j < i" by arith
      then show False
      proof cases
        case 1
        with lt show False by simp
      next
        case 2
        from fwd [OF 2 assms(1)] assms(3) have "?fi j < ?fi i" by simp
        with lt show False by simp
      qed
    qed
  next
    assume "i < j"
    from fwd [OF this assms(2,3)] show "?fi i < ?fi j" .
  qed
qed

theorem keyword_frequency_tie_order_witness:
  "keyword_frequency ascii (py ''Beta alpha beta, alpha; gamma delta.'') 3 None
     = [(py ''beta'', 2), (py ''alpha'', 2), (py ''gamma'', 1)]
   \<and> first_index (py ''beta'') (filtered_words ascii (py ''Beta alpha beta, alpha; gamma delta.'') None)
     < first_index (py ''alpha'') (filtered_words ascii (py ''Beta alpha beta, alpha; gamma delta.'') None)"
proof -
  let ?t = "py ''Beta alpha beta, alpha; gamma delta.''"
  have e: "keyword_frequency ascii ?t 3 None = [(py ''beta'', 2), (py ''alpha'', 2), (py ''gamma'', 1)]"
    by code_simp
  have h1: "0 < length (keyword_frequency ascii ?t 3 None)"
    unfolding e by simp
  have h2: "1 < length (keyword_frequency ascii ?t 3 None)"
    unfolding e by simp
  have h3: "snd (keyword_frequency ascii ?t 3 None ! 0) = snd (keyword_frequency ascii ?t 3 None ! 1)"
    unfolding e by simp
  from keyword_frequency_tie_order [OF h1 h2 h3]
  have "first_index (py ''beta'') (filtered_words ascii ?t None)
          < first_index (py ''alpha'') (filtered_words ascii ?t None)"
    unfolding e by simp
  with e show ?thesis by simp
qed

text \<open>
  Claim C10. For every text and stopword set, \<open>keyword_frequency\<close> called with a
  \<open>top_n\<close> that is zero or negative returns the empty list.
\<close>

theorem keyword_frequency_nonpositive_top_n:
  assumes "top_n \<le> 0"
  shows "keyword_frequency U text top_n stopwords = []"
  using assms by (simp add: keyword_frequency_eq)

theorem keyword_frequency_nonpositive_top_n_witness:
  "keyword_frequency ascii (py ''SEO helps. SEO ranks.'') 0 None = []
   \<and> keyword_frequency ascii (py ''SEO helps. SEO ranks.'') (- 3) None = []
   \<and> keyword_frequency ascii (py ''SEO helps. SEO ranks.'') 3 None \<noteq> []"
proof -
  have p: "keyword_frequency ascii (py ''SEO helps. SEO ranks.'') 3 None \<noteq> []"
    by code_simp
  from keyword_frequency_nonpositive_top_n [of 0 ascii "py ''SEO helps. SEO ranks.''" None]
    keyword_frequency_nonpositive_top_n [of "- 3" ascii "py ''SEO helps. SEO ranks.''" None] p
  show ?thesis by simp
qed

text \<open>
  Claim C6, as the code has it. On the empty text nothing fails: the metrics record has
  0 words, 0 sentences, the average sentence length 0, 0 long sentences and the
  difficulty estimate \<open>Easy (good for general audiences)\<close>, and the keyword table is
  empty whatever \<open>top_n\<close> and the stopword set.
\<close>

theorem empty_input_metrics:
  "readability_checks U [] =
     Inr \<lparr> total_words = 0, sentence_count = 0, average_sentence_length = PyInt 0,
           long_sentences_count = 0,
           difficulty_estimate = py ''Easy (good for general audiences)'' \<rparr>
   \<and> keyword_frequency U [] top_n stopwords = []"
proof -
  have a: "avg_sentence_length U (sentence_split U []) = Inr (PyInt 0)"
    by (simp add: sentence_split_empty avg_sentence_length_def)
  have d: "difficulty (PyInt 0) = py ''Easy (good for general audiences)''"
    by (simp add: difficulty_def)
  have m: "readability_checks U [] =
     Inr \<lparr> total_words = 0, sentence_count = 0, average_sentence_length = PyInt 0,
           long_sentences_count = 0,
           difficulty_estimate = py ''Easy (good for general audiences)'' \<rparr>"
    by (simp add: readability_checks_eq [OF a] word_count_def get_words_empty
        sentence_split_empty d)
  have "filtered_words U [] stopwords = []"
    by (simp add: filtered_words_def get_words_empty)
  then have k: "keyword_frequency U [] top_n stopwords = []"
    by (simp add: keyword_frequency_eq Counter_def py_sorted_reverse_def)
  from m k show ?thesis by blast
qed

theorem empty_input_metrics_witness:
  "total_words (projr (readability_checks ascii [])) = 0
   \<and> sentence_count (projr (readability_checks ascii [])) = 0
   \<and> average_sentence_length (projr (readability_checks ascii [])) = PyInt 0
   \<and> long_sentences_count (projr (readability_checks ascii [])) = 0
   \<and> keyword_frequency ascii [] 8 None = []"
  using empty_input_metrics [of ascii 8 None] by simp

text \<open>
  Claim C6 as the specification states it fails: the difficulty estimate of the empty
  text is not the string \<open>Easy\<close>.
\<close>

theorem empty_input_difficulty_counterexample:
  "readability_checks ascii [] \<noteq>
     Inr \<lparr> total_words = 0, sentence_count = 0, average_sentence_length = PyInt 0,
           long_sentences_count = 0, difficulty_estimate = py ''Easy'' \<rparr>"
  by code_simp

section \<open>The suggestion provider\<close>

lemma default_mock_bullets:
  "map (take 2) (text_lines [] default_mock) = replicate 6 (py ''- '')"
  by code_simp

lemma fallback_bullets:
  "map (take 13) (text_lines [] fallback) = replicate 4 (py ''- (Fallback) '')"
  by code_simp

text \<open>
  Claim C2. For every prompt, when mock mode is asked for, or the environment has no
  credential (the variable is unset or empty), or the provider library was not
  imported, \<open>call_llm\<close> returns the default mock text, which has six lines that each
  start a bullet, and sends no request.
\<close>

theorem call_llm_mock:
  assumes "use_mock \<or> environ w (py ''OPENAI_API_KEY'') = None
           \<or> environ w (py ''OPENAI_API_KEY'') = Some [] \<or> \<not> openai_imported w"
  shows "call_llm w prompt use_mock = (Inr default_mock, [])
         \<and> map (take 2) (text_lines [] default_mock) = replicate 6 (py ''- '')"
proof -
  have "use_mock_branch w use_mock"
    using assms by (auto simp: use_mock_branch_def)
  then have "call_llm w prompt use_mock = (Inr default_mock, [])"
    by (simp add: call_llm_def)
  with default_mock_bullets show ?thesis by simp
qed

theorem call_llm_mock_witness:
  "call_llm demo_world (py ''any prompt'') True = (Inr default_mock, [])
   \<and> call_llm (demo_world \<lparr> environ := (\<lambda>v. None) \<rparr>) (py ''any prompt'') False
       = (Inr default_mock, [])
   \<and> call_llm (demo_world \<lparr> openai_imported := False \<rparr>) (py ''any prompt'') False
       = (Inr default_mock, [])
   \<and> call_llm (demo_world \<lparr> environ := (\<lambda>v. Some []) \<rparr>) (py ''any prompt'') False
       = (Inr default_mock, [])"
proof -
  have e: "environ (demo_world \<lparr> environ := (\<lambda>v. None) \<rparr>) (py ''OPENAI_API_KEY'') = None"
    by simp
  have e0: "environ (demo_world \<lparr> environ := (\<lambda>v. Some []) \<rparr>) (py ''OPENAI_API_KEY'') = Some []"
    by simp
  from e0 call_llm_mock [of False "demo_world \<lparr> environ := (\<lambda>v. Some []) \<rparr>" "py ''any prompt''"]
  have r4: "call_llm (demo_world \<lparr> environ := (\<lambda>v. Some []) \<rparr>) (py ''any prompt'') False
              = (Inr default_mock, [])"
    by blast
  have i: "\<not> openai_imported (demo_world \<lparr> openai_imported := False \<rparr>)"
    by simp
  from call_llm_mock [of True demo_world "py ''any prompt''"]
  have r1: "call_llm demo_world (py ''any prompt'') True = (Inr default_mock, [])"
    by simp
  from e call_llm_mock [of False "demo_world \<lparr> environ := (\<lambda>v. None) \<rparr>" "py ''any prompt''"]
  have r2: "call_llm (demo_world \<lparr> environ := (\<lambda>v. None) \<rparr>) (py ''any prompt'') False
              = (Inr default_mock, [])"
    by blast
  from i call_llm_mock [of False "demo_world \<lparr> openai_imported := False \<rparr>" "py ''any prompt''"]
  have r3: "call_llm (demo_world \<lparr> openai_imported := False \<rparr>) (py ''any prompt'') False
              = (Inr default_mock, [])"
    by blast
  from r1 r2 r3 r4 show ?thesis by blast
qed

lemma call_llm_remote_error:
  assumes "\<not> use_mock_branch w use_mock" and "try_remote w prompt = Inl (Exception c)"
  shows "call_llm w prompt use_mock = (Inr fallback, [chat_request w prompt])"
  using assms by (simp add: call_llm_def)

lemma main_eq:
  assumes "read_file w path = Inr text"
    and "readability_checks (ucd w) text = Inr r"
    and "call_llm w (build_prompt (summary_of (word_count (ucd w) text) r
                       (keyword_frequency (ucd w) text top_n None))) use_mock = (Inr s, net)"
  shows "main w path use_mock top_n =
           \<lparr> raised = None,
             printed = (py ''Reading content from: '' @ path)
                       # report_lines (word_count (ucd w) text) r
                           (keyword_frequency (ucd w) text top_n None)
                       @ [py ''\<newline>Sending summary to LLM (mock mode = '' @ str_bool use_mock
                            @ py '')...'',
                          py ''\<newline>--- SEO Improvement Suggestions ---'', s],
             sent = net \<rparr>"
  using assms by (simp add: main_def Let_def)

text \<open>
  Claim C3. When the mock branch is not taken, for every prompt on which the remote
  call, or the reading of its response, raises an error (any instance of \<open>Exception\<close>),
  \<open>call_llm\<close> returns the fallback text, which has four lines that each start with
  \<open>- (Fallback)\<close>, after the one request it sent; the error does not leave \<open>call_llm\<close>.
  A run of \<open>main\<close> whose file was read and whose remote call raises such an error ends
  without an exception, having printed the whole report with the fallback text last.
\<close>

theorem call_llm_fallback:
  assumes attempted: "\<not> use_mock_branch w use_mock"
  shows "(\<forall>prompt c. try_remote w prompt = Inl (Exception c) \<longrightarrow>
            call_llm w prompt use_mock = (Inr fallback, [chat_request w prompt]))
       \<and> (\<forall>path text top_n r c.
            read_file w path = Inr text \<and> readability_checks (ucd w) text = Inr r
            \<and> try_remote w (build_prompt (summary_of (word_count (ucd w) text) r
                  (keyword_frequency (ucd w) text top_n None))) = Inl (Exception c)
            \<longrightarrow> raised (main w path use_mock top_n) = None
                \<and> printed (main w path use_mock top_n) =
                    (py ''Reading content from: '' @ path)
                    # report_lines (word_count (ucd w) text) r
                        (keyword_frequency (ucd w) text top_n None)
                    @ [py ''\<newline>Sending summary to LLM (mock mode = '' @ str_bool use_mock
                         @ py '')...'',
                       py ''\<newline>--- SEO Improvement Suggestions ---'', fallback])
       \<and> map (take 13) (text_lines [] fallback) = replicate 4 (py ''- (Fallback) '')"
proof -
  have a: "\<forall>prompt c. try_remote w prompt = Inl (Exception c) \<longrightarrow>
            call_llm w prompt use_mock = (Inr fallback, [chat_request w prompt])"
    using attempted by (simp add: call_llm_remote_error)
  have b: "\<forall>path text top_n r c.
            read_file w path = Inr text \<and> readability_checks (ucd w) text = Inr r
            \<and> try_remote w (build_prompt (summary_of (word_count (ucd w) text) r
                  (keyword_frequency (ucd w) text top_n None))) = Inl (Exception c)
            \<longrightarrow> raised (main w path use_mock top_n) = None
                \<and> printed (main w path use_mock top_n) =
                    (py ''Reading content from: '' @ path)
                    # report_lines (word_count (ucd w) text) r
                        (keyword_frequency (ucd w) text top_n None)
                    @ [py ''\<newline>Sending summary to LLM (mock mode = '' @ str_bool use_mock
                         @ py '')...'',
                       py ''\<newline>--- SEO Improvement Suggestions ---'', fallback]"
  proof (intro allI impI, elim conjE)
    fix path doc top_n r c
    assume rf: "read_file w path = Inr doc"
      and rc: "readability_checks (ucd w) doc = Inr r"
      and tr: "try_remote w (build_prompt (summary_of (word_count (ucd w) doc) r
                  (keyword_frequency (ucd w) doc top_n None))) = Inl (Exception c)"
    from call_llm_remote_error [OF attempted tr]
    show "raised (main w path use_mock top_n) = None
                \<and> printed (main w path use_mock top_n) =
                    (py ''Reading content from: '' @ path)
                    # report_lines (word_count (ucd w) doc) r
                        (keyword_frequency (ucd w) doc top_n None)
                    @ [py ''\<newline>Sending summary to LLM (mock mode = '' @ str_bool use_mock
                         @ py '')...'',
                       py ''\<newline>--- SEO Improvement Suggestions ---'', fallback]"
      by (simp add: main_eq [OF rf rc])
  qed
  from a b fallback_bullets show ?thesis by blast
qed

theorem call_llm_fallback_witness:
  "\<not> use_mock_branch demo_world False
   \<and> try_remote demo_world (py ''any prompt'') = Inl (Exception ''APIConnectionError'')
   \<and> call_llm demo_world (py ''any prompt'') False
       = (Inr fallback, [chat_request demo_world (py ''any prompt'')])
   \<and> read_file demo_world (py ''sample_content.txt'') = Inr []
   \<and> raised (main demo_world (py ''sample_content.txt'') False 8) = None
   \<and> last (printed (main demo_world (py ''sample_content.txt'') False 8)) = fallback
   \<and> try_remote (demo_world \<lparr> ChatCompletion_create := (\<lambda>r. Inr \<lparr> choices = [] \<rparr>) \<rparr>)
        (py ''any prompt'') = Inl (Exception ''IndexError'')
   \<and> fst (call_llm (demo_world \<lparr> ChatCompletion_create := (\<lambda>r. Inr \<lparr> choices = [] \<rparr>) \<rparr>)
        (py ''any prompt'') False) = Inr fallback"
proof -
  let ?w2 = "demo_world \<lparr> ChatCompletion_create := (\<lambda>r. Inr \<lparr> choices = [] \<rparr>) \<rparr>"
  have att: "\<not> use_mock_branch demo_world False"
    by code_simp
  have att2: "\<not> use_mock_branch ?w2 False"
    by code_simp
  have tr: "\<And>p. try_remote demo_world p = Inl (Exception ''APIConnectionError'')"
    by (simp add: try_remote_def demo_world_def)
  have tr2: "try_remote ?w2 (py ''any prompt'') = Inl (Exception ''IndexError'')"
    by (simp add: try_remote_def)
  have rf: "read_file demo_world (py ''sample_content.txt'') = Inr []"
    by (simp add: read_file_def demo_world_def)
  obtain r where rc: "readability_checks (ucd demo_world) [] = Inr r"
    using readability_checks_total by blast
  note T = call_llm_fallback [OF att]
  from T tr have r1: "call_llm demo_world (py ''any prompt'') False
       = (Inr fallback, [chat_request demo_world (py ''any prompt'')])"
    by blast
  from T rf rc tr
  have "raised (main demo_world (py ''sample_content.txt'') False 8) = None
        \<and> printed (main demo_world (py ''sample_content.txt'') False 8) =
            (py ''Reading content from: '' @ py ''sample_content.txt'')
            # report_lines (word_count (ucd demo_world) []) r
                (keyword_frequency (ucd demo_world) [] 8 None)
            @ [py ''\<newline>Sending summary to LLM (mock mode = '' @ str_bool False
                 @ py '')...'',
               py ''\<newline>--- SEO Improvement Suggestions ---'', fallback]"
    by blast
  then have r2: "raised (main demo_world (py ''sample_content.txt'') False 8) = None
        \<and> last (printed (main demo_world (py ''sample_content.txt'') False 8)) = fallback"
    by simp
  from call_llm_fallback [OF att2] tr2
  have "call_llm ?w2 (py ''any prompt'') False
          = (Inr fallback, [chat_request ?w2 (py ''any prompt'')])"
    by blast
  then have r3: "fst (call_llm ?w2 (py ''any prompt'') False) = Inr fallback"
    by simp
  from att tr r1 rf r2 tr2 r3 show ?thesis by blast
qed

section \<open>The program on the example text\<close>

text \<open>
  The metrics of the text \<open>SEO is great. SEO helps. SEO helps websites rank.\<close> and
  what a run in mock mode prints for it, computed from the definitions above.
\<close>

lemma example_metrics:
  "readability_checks ascii (py ''SEO is great. SEO helps. SEO helps websites rank.'') =
     Inr \<lparr> total_words = 9, sentence_count = 3, average_sentence_length = PyFloat 3,
           long_sentences_count = 0,
           difficulty_estimate = py ''Easy (good for general audiences)'' \<rparr>"
  by code_simp

lemma example_report:
  "printed (main example_world (py ''sample_content.txt'') True 8) =
     [py ''Reading content from: sample_content.txt'',
      py ''\<newline>--- Basic SEO Metrics ---'',
      py ''Word count: 9'',
      py ''Sentence count: 3'',
      py ''Average sentence length (words): 3.0'',
      py ''Number of long sentences (>20 words): 0'',
      py ''Difficulty estimate: Easy (good for general audiences)'',
      py ''\<newline>Top keywords:'',
      py ''1. seo '' @ [8212] @ py '' 3'',
      py ''2. helps '' @ [8212] @ py '' 2'',
      py ''3. great '' @ [8212] @ py '' 1'',
      py ''4. websites '' @ [8212] @ py '' 1'',
      py ''5. rank '' @ [8212] @ py '' 1'',
      py ''\<newline>Sending summary to LLM (mock mode = True)...'',
      py ''\<newline>--- SEO Improvement Suggestions ---'',
      default_mock]"
  by code_simp

end
